theory Spec2Isabelle
  imports Main "HOL-Library.Sublist"
begin

section \<open>Data model\<close>

text \<open>
  The scripts of the repository drive transactions against a ledger through a pool of
  RPC nodes. The model follows \<^verbatim>\<open>sender.py\<close> (class \<^verbatim>\<open>ExordeHighSpeedSender\<close>), its
  queue-driven variant \<^verbatim>\<open>transactioneer_with_queue.py\<close> and the schedule construction of
  \<^verbatim>\<open>quick_funding.py\<close>. Python's unbounded integers are \<open>int\<close>; a raised exception is
  represented by its message \<^verbatim>\<open>str(e)\<close>, which is all the code inspects.
\<close>

type_synonym address = string
type_synonym exn = string
type_synonym w3 = string
type_synonym built_tx = string
type_synonym raw_tx = string
type_synonym tx_hash = string

text \<open>An entry of \<^verbatim>\<open>accounts.json\<close>: a dict with the three keys the code reads.\<close>

record account =
  address :: address
  private_key :: string
  index :: int

datatype contract = Contract w3

record spot_params =
  file_hashs :: "string list"
  url_domains :: "string list"
  item_counts :: "int list"
  extra :: string

text \<open>The dict handed to \<^verbatim>\<open>build_transaction\<close>.\<close>

record tx_fields =
  tx_from :: address
  tx_nonce :: int
  tx_value :: int
  tx_gas :: int
  tx_gasPrice :: int
  tx_chainId :: int

text \<open>
  The fields of \<^verbatim>\<open>self\<close> that the modelled methods read or write.
  \<^verbatim>\<open>account_nonces\<close> is a \<^verbatim>\<open>defaultdict(int)\<close>: a lookup of an absent key gives 0,
  so it is a total function. \<^verbatim>\<open>contracts\<close> is a plain dict from names to lists.
\<close>

record sender =
  gas_limit :: int
  gas_price :: int
  w3_instances :: "w3 list"
  chain_id :: "int option"
  contracts :: "string \<rightharpoonup> contract list"
  accounts :: "account list"
  current_account_index :: nat
  current_sync_node_index :: nat
  account_nonces :: "address \<Rightarrow> int"
  spot_data_params :: spot_params
  submissions_count :: int
  successful_submissions :: int
  failed_submissions :: int
  last_nonce_check :: int
  nonce_realignments :: int

text \<open>\<^verbatim>\<open>__init__\<close> of \<^verbatim>\<open>sender.py\<close>.\<close>

definition init_sender :: sender where
  "init_sender =
     \<lparr>gas_limit = 700000, gas_price = 200000, w3_instances = [], chain_id = None,
      contracts = Map.empty, accounts = [], current_account_index = 0,
      current_sync_node_index = 0, account_nonces = (\<lambda>_. 0),
      spot_data_params =
        \<lparr>file_hashs = [''QmUtQJK2YncnLcBL6W9d8xeJzSmThb2CU7mpbdiC4CpkcE''],
         url_domains = [''''], item_counts = [0], extra = ''''\<rparr>,
      submissions_count = 0, successful_submissions = 0, failed_submissions = 0,
      last_nonce_check = 0, nonce_realignments = 0\<rparr>"

text \<open>
  The calls into web3 are the environment: each either raises (\<open>Inl\<close>, with the message)
  or returns. The answer of a node to a broadcast may change from one attempt to the
  next, so \<open>send_raw_transaction\<close> also receives the number of the attempt.
\<close>

record node_api =
  get_transaction_count :: "w3 \<Rightarrow> address \<Rightarrow> exn + int"
  build_transaction :: "contract \<Rightarrow> spot_params \<Rightarrow> tx_fields \<Rightarrow> exn + built_tx"
  sign_transaction :: "w3 \<Rightarrow> built_tx \<Rightarrow> string \<Rightarrow> exn + raw_tx"
  send_raw_transaction :: "w3 \<Rightarrow> raw_tx \<Rightarrow> int \<Rightarrow> exn + tx_hash"

section \<open>Nonce allocator\<close>

text \<open>
  \<^verbatim>\<open>get_next_nonce\<close> (identical in \<^verbatim>\<open>sender.py\<close> and
  \<^verbatim>\<open>transactioneer_with_queue.py\<close>): read the counter of the address, add one to it,
  return the value read.
\<close>

definition get_next_nonce :: "sender \<Rightarrow> address \<Rightarrow> int \<times> sender" where
  "get_next_nonce self a =
     (let current_nonce = account_nonces self a
      in (current_nonce,
          self\<lparr>account_nonces := (account_nonces self)(a := account_nonces self a + 1)\<rparr>))"

text \<open>\<open>n\<close> calls of \<^verbatim>\<open>get_next_nonce\<close> for one address, one after the other.\<close>

fun reserve_n :: "nat \<Rightarrow> address \<Rightarrow> sender \<Rightarrow> int list \<times> sender" where
  "reserve_n 0 a self = ([], self)"
| "reserve_n (Suc n) a self =
     (case get_next_nonce self a of
        (v, self1) \<Rightarrow> (case reserve_n n a self1 of (vs, self2) \<Rightarrow> (v # vs, self2)))"

text \<open>The scenario of the specification: three accounts seeded at 5, 0 and 12.\<close>

definition seeded_sender :: sender where
  "seeded_sender =
     init_sender\<lparr>account_nonces := (\<lambda>_. 0)(''0xA1'' := 5, ''0xA2'' := 0, ''0xA3'' := 12)\<rparr>"

section \<open>Endpoint pool\<close>

text \<open>
  \<^verbatim>\<open>get_next_sync_node\<close>: the node under the cursor, and the cursor moved on by one
  modulo the size of the pool. Indexing an empty list (or past its end) raises
  \<^verbatim>\<open>IndexError\<close> before the modulo is computed.
\<close>

definition get_next_sync_node :: "sender \<Rightarrow> exn + w3 \<times> sender" where
  "get_next_sync_node self =
     (if current_sync_node_index self < length (w3_instances self)
      then Inr (w3_instances self ! current_sync_node_index self,
                self\<lparr>current_sync_node_index :=
                       (current_sync_node_index self + 1) mod length (w3_instances self)\<rparr>)
      else Inl ''list index out of range'')"

text \<open>
  \<^verbatim>\<open>get_next_contract\<close>: the contract instance under the same cursor; the cursor is not
  moved.
\<close>

definition get_next_contract :: "sender \<Rightarrow> exn + contract" where
  "get_next_contract self =
     (case contracts self ''DataSpotting'' of
        None \<Rightarrow> Inl ''DataSpotting''
      | Some cs \<Rightarrow>
          if current_sync_node_index self < length cs
          then Inr (cs ! current_sync_node_index self)
          else Inl ''list index out of range'')"

text \<open>
  \<open>n\<close> selections in sequence, each with the state the previous one left; a selection
  that raises ends the sequence.
\<close>

fun select_n :: "nat \<Rightarrow> sender \<Rightarrow> w3 list \<times> sender" where
  "select_n 0 self = ([], self)"
| "select_n (Suc n) self =
     (case get_next_sync_node self of
        Inl e \<Rightarrow> ([], self)
      | Inr (w, self1) \<Rightarrow> (case select_n n self1 of (ws, self2) \<Rightarrow> (w # ws, self2)))"

section \<open>Submission engine\<close>

text \<open>
  What a submission does to the outside, in order: the reservation of a nonce, the
  signature, and each broadcast with the position of the node in the pool, the node, the
  bytes sent, the number of the attempt and the node's answer.
\<close>

datatype event =
    Reserved address int
  | Signed raw_tx
  | Broadcast nat w3 raw_tx int "exn + tx_hash"

text \<open>How the \<^verbatim>\<open>for retry_attempt in range(max_retries)\<close> loop is left.\<close>

datatype loop_exit = Returned "bool \<times> tx_hash option" | Fell_through

text \<open>The test \<^verbatim>\<open>"same nonce already exists" in error_msg\<close>.\<close>

definition nonce_collision :: "exn \<Rightarrow> bool" where
  "nonce_collision error_msg = sublist ''same nonce already exists'' error_msg"

text \<open>
  The retry loop of \<^verbatim>\<open>submit_spotdata_transaction\<close>, from iteration \<open>retry_attempt\<close> on.
  The inner \<^verbatim>\<open>try\<close> covers the selection of the node and the broadcast. On success the two
  counters are bumped and the function returns. In the handler, a nonce collision goes on
  to the next iteration (by \<^verbatim>\<open>continue\<close> when \<^verbatim>\<open>retry_attempt < max_retries - 1\<close>, and by
  reaching the end of the body otherwise, where \<^verbatim>\<open>range\<close> is then exhausted); any other
  error leaves the loop by \<^verbatim>\<open>break\<close>.
\<close>

function retry_loop ::
  "node_api \<Rightarrow> raw_tx \<Rightarrow> int \<Rightarrow> int \<Rightarrow> sender \<Rightarrow> loop_exit \<times> sender \<times> event list" where
  "retry_loop api raw max_retries retry_attempt self =
     (if retry_attempt < max_retries then
        (case get_next_sync_node self of
           Inl error_msg \<Rightarrow>
             if nonce_collision error_msg
             then retry_loop api raw max_retries (retry_attempt + 1) self
             else (Fell_through, self, [])
         | Inr (w3_write, self1) \<Rightarrow>
             (case send_raw_transaction api w3_write raw retry_attempt of
                Inr tx_hash \<Rightarrow>
                  (Returned (True, Some tx_hash),
                   self1\<lparr>submissions_count := submissions_count self1 + 1,
                         successful_submissions := successful_submissions self1 + 1\<rparr>,
                   [Broadcast (current_sync_node_index self) w3_write raw retry_attempt
                      (Inr tx_hash)])
              | Inl error_msg \<Rightarrow>
                  if nonce_collision error_msg
                  then (case retry_loop api raw max_retries (retry_attempt + 1) self1 of
                          (ex, self2, evs) \<Rightarrow>
                            (ex, self2,
                             Broadcast (current_sync_node_index self) w3_write raw
                               retry_attempt (Inl error_msg) # evs))
                  else (Fell_through, self1,
                        [Broadcast (current_sync_node_index self) w3_write raw
                           retry_attempt (Inl error_msg)])))
      else (Fell_through, self, []))"
  by pat_completeness auto
termination
  by (relation "measure (\<lambda>(api, raw, max_retries, retry_attempt, self).
        nat (max_retries - retry_attempt))") auto

text \<open>
  The body of the outer \<^verbatim>\<open>try\<close> of \<^verbatim>\<open>submit_spotdata_transaction\<close> in
  \<^verbatim>\<open>transactioneer_with_queue.py\<close>: the result is either the exception that leaves the
  body (\<open>Inl\<close>) or the value returned, with the state and the events up to that point.
  After the loop, \<^verbatim>\<open>failed_submissions\<close> is bumped and \<^verbatim>\<open>(False, None)\<close> returned.
\<close>

definition submit_try ::
  "node_api \<Rightarrow> sender \<Rightarrow> account \<Rightarrow> spot_params \<Rightarrow> int \<Rightarrow>
     (exn + bool \<times> tx_hash option) \<times> sender \<times> event list" where
  "submit_try api self acct transaction_params max_retries =
     (case get_next_nonce self (address acct) of
        (nonce, self1) \<Rightarrow>
          (case get_next_contract self1 of
             Inl e \<Rightarrow> (Inl e, self1, [Reserved (address acct) nonce])
           | Inr contract \<Rightarrow>
               (case get_next_sync_node self1 of
                  Inl e \<Rightarrow> (Inl e, self1, [Reserved (address acct) nonce])
                | Inr (w3_read, self2) \<Rightarrow>
                    (case chain_id self2 of
                       None \<Rightarrow>
                         (Inl ''int() argument must be a string or a number'', self2,
                          [Reserved (address acct) nonce])
                     | Some cid \<Rightarrow>
                         (case build_transaction api contract transaction_params
                                 \<lparr>tx_from = address acct, tx_nonce = nonce, tx_value = 0,
                                  tx_gas = gas_limit self2, tx_gasPrice = gas_price self2,
                                  tx_chainId = cid\<rparr> of
                            Inl e \<Rightarrow> (Inl e, self2, [Reserved (address acct) nonce])
                          | Inr transaction \<Rightarrow>
                              (case sign_transaction api w3_read transaction
                                      (private_key acct) of
                                 Inl e \<Rightarrow> (Inl e, self2, [Reserved (address acct) nonce])
                               | Inr raw \<Rightarrow>
                                   (case retry_loop api raw max_retries 0 self2 of
                                      (Returned r, self3, evs) \<Rightarrow>
                                        (Inr r, self3,
                                         Reserved (address acct) nonce # Signed raw # evs)
                                    | (Fell_through, self3, evs) \<Rightarrow>
                                        (Inr (False, None),
                                         self3\<lparr>failed_submissions :=
                                                  failed_submissions self3 + 1\<rparr>,
                                         Reserved (address acct) nonce # Signed raw # evs))))))))"

text \<open>
  \<^verbatim>\<open>submit_spotdata_transaction\<close> of \<^verbatim>\<open>transactioneer_with_queue.py\<close>: the handler of the
  outer \<^verbatim>\<open>try\<close> bumps \<^verbatim>\<open>failed_submissions\<close> and returns \<^verbatim>\<open>(False, None)\<close>. The result
  keeps the sum type, so that an exception leaving the function would be \<open>Inl\<close>.
\<close>

definition submit_spotdata_transaction_queue ::
  "node_api \<Rightarrow> sender \<Rightarrow> account \<Rightarrow> spot_params \<Rightarrow> int \<Rightarrow>
     (exn + bool \<times> tx_hash option) \<times> sender \<times> event list" where
  "submit_spotdata_transaction_queue api self acct transaction_params max_retries =
     (case submit_try api self acct transaction_params max_retries of
        (Inl e, self1, evs) \<Rightarrow>
          (Inr (False, None),
           self1\<lparr>failed_submissions := failed_submissions self1 + 1\<rparr>, evs)
      | (Inr r, self1, evs) \<Rightarrow> (Inr r, self1, evs))"

text \<open>
  \<^verbatim>\<open>submit_spotdata_transaction\<close> of \<^verbatim>\<open>sender.py\<close>: the same text, with the payload
  taken from \<^verbatim>\<open>self.spot_data_params\<close>.
\<close>

definition submit_spotdata_transaction ::
  "node_api \<Rightarrow> sender \<Rightarrow> account \<Rightarrow> int \<Rightarrow>
     (exn + bool \<times> tx_hash option) \<times> sender \<times> event list" where
  "submit_spotdata_transaction api self acct max_retries =
     submit_spotdata_transaction_queue api self acct (spot_data_params self) max_retries"

section \<open>Observations on the events of a submission\<close>

text \<open>A broadcast of the given bytes.\<close>

fun broadcast_of :: "raw_tx \<Rightarrow> event \<Rightarrow> bool" where
  "broadcast_of raw (Broadcast pos w raw' n r) = (raw' = raw)"
| "broadcast_of raw _ = False"

text \<open>The pool positions and the nodes of the broadcasts, in order.\<close>

fun broadcast_positions :: "event list \<Rightarrow> nat list" where
  "broadcast_positions [] = []"
| "broadcast_positions (Broadcast pos w raw n r # evs) = pos # broadcast_positions evs"
| "broadcast_positions (_ # evs) = broadcast_positions evs"

fun broadcast_nodes :: "event list \<Rightarrow> w3 list" where
  "broadcast_nodes [] = []"
| "broadcast_nodes (Broadcast pos w raw n r # evs) = w # broadcast_nodes evs"
| "broadcast_nodes (_ # evs) = broadcast_nodes evs"

text \<open>
  The end of \<^verbatim>\<open>submit_spotdata_transaction\<close> once the transaction is signed, as a function
  of the way the loop was left: the value the loop returned, or the failure recorded after
  it.
\<close>

definition after_loop ::
  "address \<Rightarrow> int \<Rightarrow> raw_tx \<Rightarrow> loop_exit \<times> sender \<times> event list \<Rightarrow>
     (exn + bool \<times> tx_hash option) \<times> sender \<times> event list" where
  "after_loop a n raw res =
     (case res of
        (Returned r, s3, evs) \<Rightarrow> (Inr r, s3, Reserved a n # Signed raw # evs)
      | (Fell_through, s3, evs) \<Rightarrow>
          (Inr (False, None), s3\<lparr>failed_submissions := failed_submissions s3 + 1\<rparr>,
           Reserved a n # Signed raw # evs))"

text \<open>Reservations and signatures among the events.\<close>

fun is_reserved :: "event \<Rightarrow> bool" where
  "is_reserved (Reserved a n) = True"
| "is_reserved _ = False"

fun is_signed :: "event \<Rightarrow> bool" where
  "is_signed (Signed raw) = True"
| "is_signed _ = False"

section \<open>Concrete inputs\<close>

text \<open>
  One account, a pool of three nodes with their contract instances, and four
  environments: every broadcast accepted; every broadcast answered with the nonce
  collision message; every broadcast refused for another reason; the build raising.
\<close>

definition demo_account :: account where
  "demo_account = \<lparr>address = ''0xA1'', private_key = ''key1'', index = 0\<rparr>"

definition demo_sender :: sender where
  "demo_sender =
     init_sender\<lparr>w3_instances := [''node0'', ''node1'', ''node2''], chain_id := Some 1,
       contracts := [''DataSpotting'' \<mapsto>
                       [Contract ''node0'', Contract ''node1'', Contract ''node2'']],
       accounts := [demo_account]\<rparr>"

definition api_accepting :: node_api where
  "api_accepting =
     \<lparr>get_transaction_count = (\<lambda>w a. Inr 0),
      build_transaction = (\<lambda>c p f. Inr ''tx''),
      sign_transaction = (\<lambda>w t k. Inr ''signed''),
      send_raw_transaction = (\<lambda>w raw n. Inr ''0xhash'')\<rparr>"

definition api_colliding :: node_api where
  "api_colliding =
     api_accepting\<lparr>send_raw_transaction := (\<lambda>w raw n. Inl ''same nonce already exists'')\<rparr>"

definition api_refusing :: node_api where
  "api_refusing =
     api_accepting\<lparr>send_raw_transaction := (\<lambda>w raw n. Inl ''connection refused'')\<rparr>"

definition api_unbuildable :: node_api where
  "api_unbuildable =
     api_accepting\<lparr>build_transaction := (\<lambda>c p f. Inl ''bad arguments'')\<rparr>"

section \<open>Reconciliation\<close>

text \<open>
  The block of \<^verbatim>\<open>realign_all_nonces\<close> that runs under the lock of one address: the
  counter is overwritten with the count read from the ledger when the two differ.
\<close>

definition realign_one :: "sender \<Rightarrow> address \<Rightarrow> int \<Rightarrow> sender" where
  "realign_one self a blockchain_nonce =
     (let local_nonce = account_nonces self a
      in if blockchain_nonce \<noteq> local_nonce
         then self\<lparr>account_nonces := (account_nonces self)(a := blockchain_nonce)\<rparr>
         else self)"

text \<open>
  The loop of \<^verbatim>\<open>realign_all_nonces\<close> over \<^verbatim>\<open>self.accounts\<close>: a node is selected, the
  transaction count of the address is read from it, and the counter realigned. An
  exception of the selection or of the read is logged and the loop goes on with the next
  account.
\<close>

fun realign_loop :: "node_api \<Rightarrow> account list \<Rightarrow> sender \<Rightarrow> sender" where
  "realign_loop api [] self = self"
| "realign_loop api (acct # rest) self =
     (case get_next_sync_node self of
        Inl e \<Rightarrow> realign_loop api rest self
      | Inr (w, self1) \<Rightarrow>
          (case get_transaction_count api w (address acct) of
             Inl e \<Rightarrow> realign_loop api rest self1
           | Inr blockchain_nonce \<Rightarrow>
               realign_loop api rest (realign_one self1 (address acct) blockchain_nonce)))"

definition realign_all_nonces :: "node_api \<Rightarrow> sender \<Rightarrow> sender" where
  "realign_all_nonces api self =
     (let self1 = realign_loop api (accounts self) self
      in self1\<lparr>nonce_realignments := nonce_realignments self1 + 1\<rparr>)"

text \<open>
  The scenario of the specification: the local counter reads 110 while the ledger
  reports 108.
\<close>

definition drifted_sender :: sender where
  "drifted_sender = demo_sender\<lparr>account_nonces := (\<lambda>_. 0)(''0xA1'' := 110)\<rparr>"

definition api_ledger_108 :: node_api where
  "api_ledger_108 = api_accepting\<lparr>get_transaction_count := (\<lambda>w a. Inr 108)\<rparr>"

section \<open>Work queue\<close>

text \<open>
  \<^verbatim>\<open>transaction_queue = queue.Queue(maxsize=1000000)\<close>: a first-in first-out queue of the
  standard library with a bound. \<^verbatim>\<open>put(item, block)\<close> on a full queue waits for a free
  slot when \<open>block\<close> is true (the default, and no timeout is given anywhere in the script)
  and raises \<^verbatim>\<open>queue.Full\<close> when it is false; a bound of zero or less means no bound.
  A call that waits has not returned: the outcome \<open>Put_waits\<close> carries the queue as it
  stands while the caller is suspended.
\<close>

record 'a py_queue =
  maxsize :: int
  queue_items :: "'a list"

datatype 'a put_outcome = Put_done "'a py_queue" | Put_waits "'a py_queue" | Put_raises_Full

definition put :: "'a py_queue \<Rightarrow> 'a \<Rightarrow> bool \<Rightarrow> 'a put_outcome" where
  "put q item block =
     (if maxsize q > 0 \<and> int (length (queue_items q)) \<ge> maxsize q
      then (if block then Put_waits q else Put_raises_Full)
      else Put_done (q\<lparr>queue_items := queue_items q @ [item]\<rparr>))"

text \<open>
  \<^verbatim>\<open>get(timeout=...)\<close>: the oldest item, or \<^verbatim>\<open>queue.Empty\<close> once the timeout has passed
  on an empty queue.
\<close>

definition get :: "'a py_queue \<Rightarrow> exn + 'a \<times> 'a py_queue" where
  "get q =
     (case queue_items q of
        [] \<Rightarrow> Inl ''Empty''
      | item # rest \<Rightarrow> Inr (item, q\<lparr>queue_items := rest\<rparr>))"

definition transaction_queue_init :: "spot_params py_queue" where
  "transaction_queue_init = \<lparr>maxsize = 1000000, queue_items = []\<rparr>"

text \<open>\<^verbatim>\<open>add_transaction\<close>: the four arguments are packed into a dict and put, blocking.\<close>

definition add_transaction ::
  "spot_params py_queue \<Rightarrow> string list \<Rightarrow> string list \<Rightarrow> int list \<Rightarrow> string \<Rightarrow>
     spot_params put_outcome" where
  "add_transaction q fhs uds ics ex =
     (let transaction_params =
            \<lparr>file_hashs = fhs, url_domains = uds, item_counts = ics, extra = ex\<rparr>
      in put q transaction_params True)"

text \<open>
  \<^verbatim>\<open>add_transactions_batch\<close>: the items are put one after the other; the call waits at
  the first item that finds the queue full, with the items before it already queued.
\<close>

fun add_transactions_batch ::
  "spot_params py_queue \<Rightarrow> spot_params list \<Rightarrow> spot_params put_outcome" where
  "add_transactions_batch q [] = Put_done q"
| "add_transactions_batch q (tx_params # rest) =
     (case put q tx_params True of
        Put_done q1 \<Rightarrow> add_transactions_batch q1 rest
      | Put_waits q1 \<Rightarrow> Put_waits q1
      | Put_raises_Full \<Rightarrow> Put_raises_Full)"

text \<open>
  A producer and the consuming loop working on the queue in some interleaving: each step
  is a call of \<^verbatim>\<open>add_transaction\<close> or the \<^verbatim>\<open>get\<close> of \<^verbatim>\<open>run_high_speed_loop\<close>. The run
  keeps the items whose \<^verbatim>\<open>put\<close> has returned and the items handed out by \<^verbatim>\<open>get\<close>. A
  producer that finds the queue full waits; its item is not in the queue.
\<close>

datatype queue_op = Enqueue spot_params | Dequeue

record queue_run =
  run_queue :: "spot_params py_queue"
  accepted :: "spot_params list"
  dequeued :: "spot_params list"

fun queue_step :: "queue_run \<Rightarrow> queue_op \<Rightarrow> queue_run" where
  "queue_step r (Enqueue p) =
     (case add_transaction (run_queue r) (file_hashs p) (url_domains p) (item_counts p)
             (extra p) of
        Put_done q1 \<Rightarrow> r\<lparr>run_queue := q1, accepted := accepted r @ [p]\<rparr>
      | Put_waits q1 \<Rightarrow> r
      | Put_raises_Full \<Rightarrow> r)"
| "queue_step r Dequeue =
     (case get (run_queue r) of
        Inl e \<Rightarrow> r
      | Inr (p, q1) \<Rightarrow> r\<lparr>run_queue := q1, dequeued := dequeued r @ [p]\<rparr>)"

definition queue_run_init :: "spot_params py_queue \<Rightarrow> queue_run" where
  "queue_run_init q = \<lparr>run_queue = q, accepted = queue_items q, dequeued = []\<rparr>"

text \<open>
  Conservation for a run on a queue of bound \<open>m\<close>: the accepted items are the items
  handed out followed by the items in the queue, and the queue is within its bound.
\<close>

definition queue_conserved :: "int \<Rightarrow> queue_run \<Rightarrow> bool" where
  "queue_conserved m r =
     (accepted r = dequeued r @ queue_items (run_queue r)
      \<and> int (length (queue_items (run_queue r))) \<le> m
      \<and> maxsize (run_queue r) = m)"

text \<open>A queue at its bound, and a small one for evaluation.\<close>

definition demo_params :: spot_params where
  "demo_params = \<lparr>file_hashs = [''Qm1''], url_domains = [''''], item_counts = [0], extra = ''''\<rparr>"

definition full_queue :: "spot_params py_queue" where
  "full_queue = \<lparr>maxsize = 1000000, queue_items = replicate 1000000 demo_params\<rparr>"

definition small_queue :: "spot_params py_queue" where
  "small_queue = \<lparr>maxsize = 1, queue_items = []\<rparr>"

section \<open>Funding schedule\<close>

text \<open>
  \<^verbatim>\<open>load_accounts\<close> of \<^verbatim>\<open>quick_funding.py\<close>, from the list read from the accounts file:
  fewer than 2000 entries raise \<^verbatim>\<open>ValueError\<close>; otherwise the first 200 are the funding
  accounts and the entries 200 to 1999 the targets.
\<close>

definition load_accounts :: "account list \<Rightarrow> exn + account list \<times> account list" where
  "load_accounts all_accounts =
     (if length all_accounts < 2000
      then Inl ''Need at least 2000 accounts''
      else Inr (take 200 all_accounts, drop 200 (take 2000 all_accounts)))"

text \<open>
  The schedule loop of \<^verbatim>\<open>initialize_funding_nonces_and_schedule\<close>, from position \<open>i\<close> of
  the enumeration on. \<^verbatim>\<open>funding_schedule\<close> is a \<^verbatim>\<open>defaultdict(list)\<close> keyed by the address of
  the funding account. The modulo by the number of funding accounts raises
  \<^verbatim>\<open>ZeroDivisionError\<close> when there is none.
\<close>

fun schedule_loop ::
  "account list \<Rightarrow> nat \<Rightarrow> account list \<Rightarrow> (address \<Rightarrow> account list) \<Rightarrow>
     exn + (address \<Rightarrow> account list)" where
  "schedule_loop funding_accounts i [] funding_schedule = Inr funding_schedule"
| "schedule_loop funding_accounts i (target_account # rest) funding_schedule =
     (if length funding_accounts = 0
      then Inl ''integer modulo by zero''
      else
        (let funder_index = i mod length funding_accounts;
             funding_account = funding_accounts ! funder_index
         in schedule_loop funding_accounts (i + 1) rest
              (funding_schedule(address funding_account :=
                 funding_schedule (address funding_account) @ [target_account]))))"

text \<open>The schedule built on a fresh object, whose \<^verbatim>\<open>funding_schedule\<close> is empty.\<close>

definition create_schedule ::
  "account list \<Rightarrow> account list \<Rightarrow> exn + (address \<Rightarrow> account list)" where
  "create_schedule funding_accounts target_accounts =
     schedule_loop funding_accounts 0 target_accounts (\<lambda>_. [])"

text \<open>An accounts file of 2000 entries with pairwise different addresses.\<close>

definition numbered_account :: "nat \<Rightarrow> account" where
  "numbered_account i =
     \<lparr>address = replicate i (CHR ''a''), private_key = '''', index = int i\<rparr>"

definition demo_accounts :: "account list" where
  "demo_accounts = map numbered_account [0..<2000]"

section \<open>Properties of the nonce allocator\<close>

lemma reserve_n_Suc:
  "fst (reserve_n (Suc n) a self) =
     account_nonces self a # fst (reserve_n n a (snd (get_next_nonce self a)))"
  "snd (reserve_n (Suc n) a self) = snd (reserve_n n a (snd (get_next_nonce self a)))"
  by (simp_all add: get_next_nonce_def split: prod.splits)

lemma get_next_nonce_counter:
  "account_nonces (snd (get_next_nonce self a)) =
     (account_nonces self)(a := account_nonces self a + 1)"
  by (simp add: get_next_nonce_def)

lemma reserve_n_values:
  "fst (reserve_n n a self) = map (\<lambda>i. account_nonces self a + int i) [0..<n]"
proof (induction n arbitrary: self)
  case 0
  show ?case by simp
next
  case (Suc n)
  have "fst (reserve_n (Suc n) a self) =
        account_nonces self a # map (\<lambda>i. account_nonces self a + 1 + int i) [0..<n]"
    unfolding reserve_n_Suc Suc.IH get_next_nonce_counter by simp
  also have "\<dots> = map (\<lambda>i. account_nonces self a + int i) [0..<Suc n]"
    by (simp add: map_upt_Suc add.assoc del: upt_Suc)
  finally show ?case .
qed

lemma reserve_n_counter:
  "account_nonces (snd (reserve_n n a self)) =
     (account_nonces self)(a := account_nonces self a + int n)"
proof (induction n arbitrary: self)
  case 0
  show ?case by simp
next
  case (Suc n)
  show ?case
    unfolding reserve_n_Suc Suc.IH get_next_nonce_counter by (simp add: fun_eq_iff)
qed

lemma strictly_increasing_run:
  "sorted_wrt (<) (map (\<lambda>i. (v::int) + int i) [0..<n])"
  by (simp add: sorted_wrt_map sorted_wrt_iff_nth_less)

text \<open>
  C4. \<^verbatim>\<open>get_next_nonce\<close> returns the current counter of the address and adds one to
  it, leaving every other field alone; \<open>n\<close> calls in sequence on a counter that stands at
  \<open>v\<close> return \<open>v, v+1, ..., v+n-1\<close>, which are pairwise distinct and strictly increasing;
  with the counters seeded at 5, 0 and 12, three calls on the first account return 5, 6, 7.
\<close>

theorem get_next_nonce_sequence:
  "get_next_nonce self a =
     (account_nonces self a,
      self\<lparr>account_nonces := (account_nonces self)(a := account_nonces self a + 1)\<rparr>)
   \<and> fst (reserve_n n a self) = map (\<lambda>i. account_nonces self a + int i) [0..<n]
   \<and> distinct (fst (reserve_n n a self))
   \<and> sorted_wrt (<) (fst (reserve_n n a self))
   \<and> fst (reserve_n 3 ''0xA1'' seeded_sender) = [5, 6, 7]"
proof -
  have inc: "sorted_wrt (<) (fst (reserve_n n a self))"
    unfolding reserve_n_values by (rule strictly_increasing_run)
  have dist: "distinct (fst (reserve_n n a self))"
    using inc strict_sorted_iff by blast
  have scen: "fst (reserve_n 3 ''0xA1'' seeded_sender) = [5, 6, 7]"
    unfolding reserve_n_values
    by (simp add: seeded_sender_def init_sender_def upt_conv_Cons)
  show ?thesis
    using inc dist scen by (simp add: get_next_nonce_def reserve_n_values)
qed

declare retry_loop.simps [simp del]

lemma no_collision_index_error: "\<not> nonce_collision ''list index out of range''"
  by (simp add: nonce_collision_def sublist_code prefix_code)

lemma get_next_sync_node_Inl:
  "get_next_sync_node s = Inl e \<Longrightarrow> e = ''list index out of range''"
  by (simp add: get_next_sync_node_def split: if_splits)

lemma retry_loop_exhausted:
  "\<not> k < R \<Longrightarrow> retry_loop api raw R k s = (Fell_through, s, [])"
  by (subst retry_loop.simps) simp

lemma retry_loop_no_node:
  "k < R \<Longrightarrow> get_next_sync_node s = Inl e \<Longrightarrow>
     retry_loop api raw R k s = (Fell_through, s, [])"
  using no_collision_index_error get_next_sync_node_Inl [of s e]
  by (subst retry_loop.simps) simp

lemma retry_loop_success:
  "k < R \<Longrightarrow> get_next_sync_node s = Inr (w, s1) \<Longrightarrow>
   send_raw_transaction api w raw k = Inr h \<Longrightarrow>
     retry_loop api raw R k s =
       (Returned (True, Some h),
        s1\<lparr>submissions_count := submissions_count s1 + 1,
           successful_submissions := successful_submissions s1 + 1\<rparr>,
        [Broadcast (current_sync_node_index s) w raw k (Inr h)])"
  by (subst retry_loop.simps) simp

lemma retry_loop_break:
  "k < R \<Longrightarrow> get_next_sync_node s = Inr (w, s1) \<Longrightarrow>
   send_raw_transaction api w raw k = Inl e \<Longrightarrow> \<not> nonce_collision e \<Longrightarrow>
     retry_loop api raw R k s =
       (Fell_through, s1, [Broadcast (current_sync_node_index s) w raw k (Inl e)])"
  by (subst retry_loop.simps) simp

lemma retry_loop_collision:
  "k < R \<Longrightarrow> get_next_sync_node s = Inr (w, s1) \<Longrightarrow>
   send_raw_transaction api w raw k = Inl e \<Longrightarrow> nonce_collision e \<Longrightarrow>
     retry_loop api raw R k s =
       (case retry_loop api raw R (k + 1) s1 of
          (ex, s2, evs) \<Rightarrow>
            (ex, s2, Broadcast (current_sync_node_index s) w raw k (Inl e) # evs))"
  by (subst retry_loop.simps) simp

lemma retry_loop_rule:
  assumes exhausted: "\<And>k s. \<not> k < R \<Longrightarrow> P k s (Fell_through, s, [])"
    and no_node: "\<And>k s e. k < R \<Longrightarrow> get_next_sync_node s = Inl e \<Longrightarrow>
                    P k s (Fell_through, s, [])"
    and success: "\<And>k s w s1 h. k < R \<Longrightarrow> get_next_sync_node s = Inr (w, s1) \<Longrightarrow>
                    send_raw_transaction api w raw k = Inr h \<Longrightarrow>
                    P k s (Returned (True, Some h),
                           s1\<lparr>submissions_count := submissions_count s1 + 1,
                              successful_submissions := successful_submissions s1 + 1\<rparr>,
                           [Broadcast (current_sync_node_index s) w raw k (Inr h)])"
    and break: "\<And>k s w s1 e. k < R \<Longrightarrow> get_next_sync_node s = Inr (w, s1) \<Longrightarrow>
                    send_raw_transaction api w raw k = Inl e \<Longrightarrow> \<not> nonce_collision e \<Longrightarrow>
                    P k s (Fell_through, s1,
                           [Broadcast (current_sync_node_index s) w raw k (Inl e)])"
    and collision: "\<And>k s w s1 e ex s2 evs. k < R \<Longrightarrow>
                    get_next_sync_node s = Inr (w, s1) \<Longrightarrow>
                    send_raw_transaction api w raw k = Inl e \<Longrightarrow> nonce_collision e \<Longrightarrow>
                    retry_loop api raw R (k + 1) s1 = (ex, s2, evs) \<Longrightarrow>
                    P (k + 1) s1 (ex, s2, evs) \<Longrightarrow>
                    P k s (ex, s2, Broadcast (current_sync_node_index s) w raw k (Inl e) # evs)"
  shows "P k s (retry_loop api raw R k s)"
proof (induction "nat (R - k)" arbitrary: k s)
  case 0
  then have "\<not> k < R" by simp
  then show ?case by (simp add: retry_loop_exhausted exhausted)
next
  case (Suc n)
  then have lt: "k < R" and n: "n = nat (R - (k + 1))" by simp_all
  show ?case
  proof (cases "get_next_sync_node s")
    case (Inl e)
    then show ?thesis using lt by (simp add: retry_loop_no_node no_node)
  next
    case (Inr p)
    obtain w s1 where p: "p = (w, s1)" by (cases p)
    note node = Inr [unfolded p]
    show ?thesis
    proof (cases "send_raw_transaction api w raw k")
      case (Inr h)
      then show ?thesis using lt node by (simp add: retry_loop_success success)
    next
      case (Inl e)
      show ?thesis
      proof (cases "nonce_collision e")
        case False
        then show ?thesis using lt node Inl by (simp add: retry_loop_break break)
      next
        case True
        obtain ex s2 evs where r: "retry_loop api raw R (k + 1) s1 = (ex, s2, evs)"
          by (cases "retry_loop api raw R (k + 1) s1")
        have "P (k + 1) s1 (ex, s2, evs)"
          using Suc.hyps(1) [OF n, of s1] r by simp
        then show ?thesis
          using collision [OF lt node Inl True r] lt node Inl True r
          by (simp add: retry_loop_collision)
      qed
    qed
  qed
qed

lemma retry_loop_broadcasts:
  "list_all (broadcast_of raw) (snd (snd (retry_loop api raw R k s)))"
  by (rule retry_loop_rule) simp_all

lemma retry_loop_nonces:
  "account_nonces (fst (snd (retry_loop api raw R k s))) = account_nonces s"
  by (rule retry_loop_rule) (auto simp: get_next_sync_node_def split: if_splits)

lemma retry_loop_failed:
  "failed_submissions (fst (snd (retry_loop api raw R k s))) = failed_submissions s"
  by (rule retry_loop_rule) (auto simp: get_next_sync_node_def split: if_splits)

lemma collision_msg: "nonce_collision ''same nonce already exists''"
  by (simp add: nonce_collision_def)

lemma refused_msg: "\<not> nonce_collision ''connection refused''"
  by (simp add: nonce_collision_def sublist_code prefix_code)

lemmas demo_defs = demo_sender_def init_sender_def demo_account_def api_accepting_def
  api_colliding_def api_refusing_def api_unbuildable_def

lemmas submit_eval = submit_spotdata_transaction_def submit_spotdata_transaction_queue_def
      submit_try_def get_next_nonce_def get_next_contract_def get_next_sync_node_def
      retry_loop.simps demo_defs

lemma ev_refusing:
  "submit_spotdata_transaction api_refusing demo_sender demo_account 3 =
     (Inr (False, None),
      demo_sender\<lparr>current_sync_node_index := 2,
        account_nonces := (\<lambda>_. 0)(''0xA1'' := 1), failed_submissions := 1\<rparr>,
      [Reserved ''0xA1'' 0, Signed ''signed'',
       Broadcast 1 ''node1'' ''signed'' 0 (Inl ''connection refused'')])"
  by (simp add: submit_eval refused_msg)

lemma ev_colliding:
  "submit_spotdata_transaction api_colliding demo_sender demo_account 3 =
     (Inr (False, None),
      demo_sender\<lparr>current_sync_node_index := 1,
        account_nonces := (\<lambda>_. 0)(''0xA1'' := 1), failed_submissions := 1\<rparr>,
      [Reserved ''0xA1'' 0, Signed ''signed'',
       Broadcast 1 ''node1'' ''signed'' 0 (Inl ''same nonce already exists''),
       Broadcast 2 ''node2'' ''signed'' 1 (Inl ''same nonce already exists''),
       Broadcast 0 ''node0'' ''signed'' 2 (Inl ''same nonce already exists'')])"
  by (simp add: submit_eval collision_msg)

lemma ev_unb:
  "submit_spotdata_transaction api_unbuildable demo_sender demo_account 3 =
     (Inr (False, None),
      demo_sender\<lparr>current_sync_node_index := 1,
        account_nonces := (\<lambda>_. 0)(''0xA1'' := 1), failed_submissions := 1\<rparr>,
      [Reserved ''0xA1'' 0])"
  by (simp add: submit_eval)

lemma ev_acc:
  "submit_spotdata_transaction api_accepting demo_sender demo_account 3 =
     (Inr (True, Some ''0xhash''),
      demo_sender\<lparr>current_sync_node_index := 2,
        account_nonces := (\<lambda>_. 0)(''0xA1'' := 1), submissions_count := 1,
        successful_submissions := 1\<rparr>,
      [Reserved ''0xA1'' 0, Signed ''signed'',
       Broadcast 1 ''node1'' ''signed'' 0 (Inr ''0xhash'')])"
  by (simp add: submit_eval)

lemma get_next_sync_node_counters:
  "get_next_sync_node s = Inr (w, s1) \<Longrightarrow>
     submissions_count s1 = submissions_count s
     \<and> successful_submissions s1 = successful_submissions s
     \<and> failed_submissions s1 = failed_submissions s
     \<and> account_nonces s1 = account_nonces s
     \<and> w3_instances s1 = w3_instances s
     \<and> current_sync_node_index s < length (w3_instances s)
     \<and> w = w3_instances s ! current_sync_node_index s
     \<and> current_sync_node_index s1 = (current_sync_node_index s + 1) mod length (w3_instances s)"
  by (auto simp: get_next_sync_node_def split: if_splits)

lemma retry_loop_stops:
  "\<forall>pre pos w raw' n e post.
     snd (snd (retry_loop api raw R k s)) = pre @ Broadcast pos w raw' n (Inl e) # post
     \<and> \<not> nonce_collision e \<longrightarrow> post = [] \<and> fst (retry_loop api raw R k s) = Fell_through"
proof (rule retry_loop_rule, goal_cases)
  case (5 k s w s1 e ex s2 evs)
  show ?case
  proof (intro allI impI, elim conjE)
    fix pre pos w' raw' n e' post
    assume eq: "snd (snd (ex, s2, Broadcast (current_sync_node_index s) w raw k (Inl e) # evs))
                  = pre @ Broadcast pos w' raw' n (Inl e') # post"
      and nc: "\<not> nonce_collision e'"
    show "post = [] \<and> fst (ex, s2, Broadcast (current_sync_node_index s) w raw k (Inl e) # evs)
            = Fell_through"
    proof (cases pre)
      case Nil
      with eq have "e' = e" by simp
      with nc 5(4) show ?thesis by simp
    next
      case (Cons p pre')
      with eq have "evs = pre' @ Broadcast pos w' raw' n (Inl e') # post" by simp
      with 5(6) nc show ?thesis by auto
    qed
  qed
qed (auto simp: Cons_eq_append_conv)

lemma retry_loop_counters:
  "(case retry_loop api raw R k s of
      (Returned r, s', evs) \<Rightarrow>
         (\<exists>h. r = (True, Some h)) \<and> submissions_count s' = submissions_count s + 1
         \<and> successful_submissions s' = successful_submissions s + 1
    | (Fell_through, s', evs) \<Rightarrow>
         submissions_count s' = submissions_count s
         \<and> successful_submissions s' = successful_submissions s)"
  by (rule retry_loop_rule)
     (auto dest: get_next_sync_node_counters split: loop_exit.splits)

lemma rotation_positions:
  fixes c m N :: nat
  assumes "c < N"
  shows "c # map (\<lambda>j. ((c + 1) mod N + j) mod N) [0..<m] = map (\<lambda>j. (c + j) mod N) [0..<Suc m]"
proof -
  have "((c + 1) mod N + j) mod N = (c + Suc j) mod N" for j
    by (simp add: mod_add_left_eq)
  then show ?thesis using assms by (simp add: map_upt_Suc del: upt_Suc)
qed

lemma retry_loop_nodes:
  "broadcast_nodes (snd (snd (retry_loop api raw R k s))) =
     map ((!) (w3_instances s)) (broadcast_positions (snd (snd (retry_loop api raw R k s))))"
  by (rule retry_loop_rule [where P = "\<lambda>k s res. broadcast_nodes (snd (snd res)) =
          map ((!) (w3_instances s)) (broadcast_positions (snd (snd res)))"])
     (auto dest!: get_next_sync_node_counters)

lemma retry_loop_all_collisions:
  assumes coll: "\<And>w n. \<exists>e. send_raw_transaction api w raw n = Inl e \<and> nonce_collision e"
  shows "current_sync_node_index s < length (w3_instances s) \<longrightarrow>
     fst (retry_loop api raw R k s) = Fell_through
     \<and> broadcast_positions (snd (snd (retry_loop api raw R k s))) =
         map (\<lambda>j. (current_sync_node_index s + j) mod length (w3_instances s))
           [0..<nat (R - k)]"
proof (rule retry_loop_rule [where P = "\<lambda>k s res.
     current_sync_node_index s < length (w3_instances s) \<longrightarrow>
     fst res = Fell_through
     \<and> broadcast_positions (snd (snd res)) =
         map (\<lambda>j. (current_sync_node_index s + j) mod length (w3_instances s))
           [0..<nat (R - k)]"], goal_cases)
  case (1 k s)
  then show ?case by simp
next
  case (2 k s e)
  then show ?case by (simp add: get_next_sync_node_def split: if_splits)
next
  case (3 k s w s1 h)
  then show ?case using coll [of w k] by simp
next
  case (4 k s w s1 e)
  then show ?case using coll [of w k] by auto
next
  case (5 k s w s1 e ex s2 evs)
  note node = get_next_sync_node_counters [OF 5(2)]
  have m: "nat (R - k) = Suc (nat (R - (k + 1)))" using 5(1) by simp
  have "0 < length (w3_instances s)" using node by auto
  then have "current_sync_node_index s1 < length (w3_instances s1)" using node by simp
  with 5(6) have ih: "ex = Fell_through"
    "broadcast_positions evs =
       map (\<lambda>j. ((current_sync_node_index s + 1) mod length (w3_instances s) + j)
                  mod length (w3_instances s)) [0..<nat (R - (k + 1))]"
    using node by simp_all
  show ?case
    unfolding m using ih rotation_positions [of "current_sync_node_index s" "length (w3_instances s)"]
    by (simp del: upt_Suc)
qed

lemma submit_queue_cases:
  obtains (early) s1 where
      "submit_spotdata_transaction_queue api self acct params R =
         (Inr (False, None), s1\<lparr>failed_submissions := failed_submissions s1 + 1\<rparr>,
          [Reserved (address acct) (account_nonces self (address acct))])"
      "account_nonces s1 =
         (account_nonces self)(address acct := account_nonces self (address acct) + 1)"
      "submissions_count s1 = submissions_count self"
      "successful_submissions s1 = successful_submissions self"
      "failed_submissions s1 = failed_submissions self"
  | (loop) w3_read s2 raw c cid tx where
      "get_next_contract (snd (get_next_nonce self (address acct))) = Inr c"
      "get_next_sync_node (snd (get_next_nonce self (address acct))) = Inr (w3_read, s2)"
      "chain_id self = Some cid"
      "build_transaction api c params
         \<lparr>tx_from = address acct, tx_nonce = account_nonces self (address acct),
          tx_value = 0, tx_gas = gas_limit self, tx_gasPrice = gas_price self,
          tx_chainId = cid\<rparr> = Inr tx"
      "sign_transaction api w3_read tx (private_key acct) = Inr raw"
      "submit_spotdata_transaction_queue api self acct params R =
         after_loop (address acct) (account_nonces self (address acct)) raw
           (retry_loop api raw R 0 s2)"
proof -
  let ?a = "address acct"
  let ?n = "account_nonces self ?a"
  let ?s1 = "self\<lparr>account_nonces := (account_nonces self)(?a := ?n + 1)\<rparr>"
  have nn: "get_next_nonce self ?a = (?n, ?s1)" by (simp add: get_next_nonce_def)
  have s1: "account_nonces ?s1 = (account_nonces self)(?a := ?n + 1)"
    "submissions_count ?s1 = submissions_count self"
    "successful_submissions ?s1 = successful_submissions self"
    "failed_submissions ?s1 = failed_submissions self"
    "chain_id ?s1 = chain_id self" "gas_limit ?s1 = gas_limit self"
    "gas_price ?s1 = gas_price self"
    by simp_all
  show thesis
  proof (cases "get_next_contract ?s1")
    case (Inl e)
    then have "submit_spotdata_transaction_queue api self acct params R =
        (Inr (False, None), ?s1\<lparr>failed_submissions := failed_submissions ?s1 + 1\<rparr>,
         [Reserved ?a ?n])"
      by (simp add: submit_spotdata_transaction_queue_def submit_try_def nn)
    then show ?thesis using s1(1-4) by (rule early)
  next
    case c: (Inr c)
    show ?thesis
    proof (cases "get_next_sync_node ?s1")
      case (Inl e)
      then have "submit_spotdata_transaction_queue api self acct params R =
          (Inr (False, None), ?s1\<lparr>failed_submissions := failed_submissions ?s1 + 1\<rparr>,
           [Reserved ?a ?n])"
        using c by (simp add: submit_spotdata_transaction_queue_def submit_try_def nn)
      then show ?thesis using s1(1-4) by (rule early)
    next
      case (Inr p)
      obtain w3_read s2 where p: "p = (w3_read, s2)" by (cases p)
      note node = Inr [unfolded p]
      have s2: "account_nonces s2 = (account_nonces self)(?a := ?n + 1)"
        "submissions_count s2 = submissions_count self"
        "successful_submissions s2 = successful_submissions self"
        "failed_submissions s2 = failed_submissions self"
        "chain_id s2 = chain_id self" "gas_limit s2 = gas_limit self"
        "gas_price s2 = gas_price self"
        using node s1 by (auto simp: get_next_sync_node_def split: if_splits)
      show ?thesis
      proof (cases "chain_id self")
        case None
        then have "submit_spotdata_transaction_queue api self acct params R =
            (Inr (False, None), s2\<lparr>failed_submissions := failed_submissions s2 + 1\<rparr>,
             [Reserved ?a ?n])"
          using c node s2
          by (simp add: submit_spotdata_transaction_queue_def submit_try_def nn)
        then show ?thesis using s2(1-4) by (rule early)
      next
        case (Some cid)
        let ?f = "\<lparr>tx_from = ?a, tx_nonce = ?n, tx_value = 0, tx_gas = gas_limit self,
                   tx_gasPrice = gas_price self, tx_chainId = cid\<rparr>"
        show ?thesis
        proof (cases "build_transaction api c params ?f")
          case (Inl e)
          then have "submit_spotdata_transaction_queue api self acct params R =
              (Inr (False, None), s2\<lparr>failed_submissions := failed_submissions s2 + 1\<rparr>,
               [Reserved ?a ?n])"
            using c node s2 Some
            by (simp add: submit_spotdata_transaction_queue_def submit_try_def nn)
          then show ?thesis using s2(1-4) by (rule early)
        next
          case tx: (Inr tx)
          show ?thesis
          proof (cases "sign_transaction api w3_read tx (private_key acct)")
            case (Inl e)
            then have "submit_spotdata_transaction_queue api self acct params R =
                (Inr (False, None), s2\<lparr>failed_submissions := failed_submissions s2 + 1\<rparr>,
                 [Reserved ?a ?n])"
              using c node s2 Some tx
              by (simp add: submit_spotdata_transaction_queue_def submit_try_def nn)
            then show ?thesis using s2(1-4) by (rule early)
          next
            case (Inr raw)
            have "submit_spotdata_transaction_queue api self acct params R =
                    after_loop ?a ?n raw (retry_loop api raw R 0 s2)"
              using s2 c node Some tx Inr
              by (simp add: submit_spotdata_transaction_queue_def submit_try_def nn
                    after_loop_def split: prod.splits loop_exit.splits)
            then show ?thesis using loop [of c w3_read s2 cid tx raw] c node Some tx Inr
              by (simp add: nn)
          qed
        qed
      qed
    qed
  qed
qed

lemma broadcasts_not_reserved_signed:
  "list_all (broadcast_of raw) bs \<Longrightarrow> filter is_reserved bs = [] \<and> filter is_signed bs = []"
proof (induction bs)
  case Nil
  show ?case by simp
next
  case (Cons b bs)
  then show ?case by (cases b) simp_all
qed

lemma broadcast_after_prefix:
  assumes "pre @ Broadcast pos w raw n r # post = Reserved a m # Signed raw' # bs"
  shows "\<exists>pre'. bs = pre' @ Broadcast pos w raw n r # post"
proof (cases pre)
  case Nil
  with assms show ?thesis by simp
next
  case (Cons p pre1)
  with assms show ?thesis by (cases pre1) auto
qed

lemma after_loop_shape:
  "after_loop a n raw (ex, s3, bs) = (res, s', evs) \<Longrightarrow>
     evs = Reserved a n # Signed raw # bs \<and> account_nonces s' = account_nonces s3"
  by (auto simp: after_loop_def split: loop_exit.splits)

lemma submit_queue_reserves_once:
  assumes run: "submit_spotdata_transaction_queue api self acct params R = (res, self', evs)"
  shows "account_nonces self' =
           (account_nonces self)(address acct := account_nonces self (address acct) + 1)
       \<and> length (filter is_reserved evs) = 1
       \<and> length (filter is_signed evs) \<le> 1
       \<and> ((res = Inr (False, None)
            \<and> evs = [Reserved (address acct) (account_nonces self (address acct))])
          \<or> (\<exists>raw bs. evs = Reserved (address acct) (account_nonces self (address acct))
                               # Signed raw # bs
                      \<and> list_all (broadcast_of raw) bs))"
proof (cases rule: submit_queue_cases [of api self acct params R])
  case (early s1)
  then show ?thesis using run by auto
next
  case (loop w3_read s2 raw c cid tx)
  obtain ex s3 bs where r: "retry_loop api raw R 0 s2 = (ex, s3, bs)"
    by (cases "retry_loop api raw R 0 s2")
  have bs: "list_all (broadcast_of raw) bs"
    using retry_loop_broadcasts [of raw api R 0 s2] r by simp
  have n3: "account_nonces s3 = account_nonces s2"
    using retry_loop_nonces [of api raw R 0 s2] r by simp
  have n2: "account_nonces s2 =
      (account_nonces self)(address acct := account_nonces self (address acct) + 1)"
    using get_next_sync_node_counters [OF loop(2)] by (simp add: get_next_nonce_def)
  have sh: "evs = Reserved (address acct) (account_nonces self (address acct)) # Signed raw # bs"
    "account_nonces self' = account_nonces s3"
    using after_loop_shape [of _ _ raw ex s3 bs res self' evs] loop(6) run r by simp_all
  show ?thesis
    using sh n3 n2 bs broadcasts_not_reserved_signed [OF bs] by simp
qed

lemma submit_queue_stops:
  assumes run: "submit_spotdata_transaction_queue api self acct params R = (res, self', evs)"
    and ev: "evs = pre @ Broadcast pos w raw n (Inl e) # post"
    and nc: "\<not> nonce_collision e"
  shows "post = [] \<and> res = Inr (False, None)
       \<and> failed_submissions self' = failed_submissions self + 1
       \<and> submissions_count self' = submissions_count self
       \<and> successful_submissions self' = successful_submissions self"
proof (cases rule: submit_queue_cases [of api self acct params R])
  case (early s1)
  then show ?thesis using run ev by (auto simp: Cons_eq_append_conv append_eq_Cons_conv)
next
  case (loop w3_read s2 raw' c cid tx)
  obtain ex s3 bs where r: "retry_loop api raw' R 0 s2 = (ex, s3, bs)"
    by (cases "retry_loop api raw' R 0 s2")
  have s2: "submissions_count s2 = submissions_count self"
    "successful_submissions s2 = successful_submissions self"
    "failed_submissions s2 = failed_submissions self"
    using get_next_sync_node_counters [OF loop(2)] by (simp_all add: get_next_nonce_def)
  have sh: "evs = Reserved (address acct) (account_nonces self (address acct)) # Signed raw' # bs"
    using after_loop_shape [of _ _ raw' ex s3 bs res self' evs] loop(6) run r by simp
  then obtain pre' where "bs = pre' @ Broadcast pos w raw n (Inl e) # post"
    using ev broadcast_after_prefix [of pre pos w raw n "Inl e" post _ _ raw' bs] by auto
  then have stop: "post = []" "ex = Fell_through"
    using retry_loop_stops [of api raw' R 0 s2] r nc by auto
  have "submissions_count s3 = submissions_count s2
        \<and> successful_submissions s3 = successful_submissions s2"
    using retry_loop_counters [where api = api and raw = raw' and R = R and k = 0 and s = s2] r stop by simp
  moreover have "failed_submissions s3 = failed_submissions s2"
    using retry_loop_failed [of api raw' R 0 s2] r by simp
  ultimately show ?thesis
    using stop s2 loop(6) run r by (auto simp: after_loop_def)
qed

lemma submit_queue_returns:
  "\<exists>ok h self' evs.
     submit_spotdata_transaction_queue api self acct params R = (Inr (ok, h), self', evs)
     \<and> ((ok \<and> (\<exists>t. h = Some t)
          \<and> submissions_count self' = submissions_count self + 1
          \<and> successful_submissions self' = successful_submissions self + 1
          \<and> failed_submissions self' = failed_submissions self)
        \<or> (ok = False \<and> h = None
          \<and> submissions_count self' = submissions_count self
          \<and> successful_submissions self' = successful_submissions self
          \<and> failed_submissions self' = failed_submissions self + 1))"
proof (cases rule: submit_queue_cases [of api self acct params R])
  case (early s1)
  then show ?thesis by (intro exI [of _ False] exI [of _ None]) simp
next
  case (loop w3_read s2 raw c cid tx)
  obtain ex s3 bs where r: "retry_loop api raw R 0 s2 = (ex, s3, bs)"
    by (cases "retry_loop api raw R 0 s2")
  have s2: "submissions_count s2 = submissions_count self"
    "successful_submissions s2 = successful_submissions self"
    "failed_submissions s2 = failed_submissions self"
    using get_next_sync_node_counters [OF loop(2)] by (simp_all add: get_next_nonce_def)
  have f3: "failed_submissions s3 = failed_submissions s2"
    using retry_loop_failed [of api raw R 0 s2] r by simp
  show ?thesis
    using retry_loop_counters [where api = api and raw = raw and R = R and k = 0 and s = s2] r s2 f3 loop(6)
    by (cases ex) (auto simp: after_loop_def)
qed

section \<open>The claims on the submission engine\<close>

lemma rotation_inj:
  fixes c i j N :: nat
  assumes "i \<le> j" "j < N" "(c + i) mod N = (c + j) mod N"
  shows "i = j"
proof -
  have "N dvd (c + j) - (c + i)"
    using assms mod_eq_dvd_iff_nat [of "c + i" "c + j" N] by simp
  then have "N dvd j - i" by simp
  then have "j - i = 0" using assms(2) by (auto dest: dvd_imp_le)
  then show ?thesis using assms(1) by simp
qed

lemma rotation_distinct:
  fixes c m N :: nat
  assumes "m \<le> N"
  shows "distinct (map (\<lambda>j. (c + j) mod N) [0..<m])"
proof -
  have "inj_on (\<lambda>j. (c + j) mod N) {0..<m}"
  proof (rule inj_onI)
    fix i j
    assume "i \<in> {0..<m}" "j \<in> {0..<m}" "(c + i) mod N = (c + j) mod N"
    then show "i = j"
      using assms rotation_inj [of i j N c] rotation_inj [of j i N c]
      by (cases "i \<le> j") auto
  qed
  then show ?thesis by (simp add: distinct_map)
qed

lemma submit_colliding_run:
  assumes idx: "current_sync_node_index self < length (w3_instances self)"
    and cs: "contracts self ''DataSpotting'' = Some cs"
      "current_sync_node_index self < length cs"
    and cid: "chain_id self = Some cid"
    and build: "\<And>c p f. \<exists>tx. build_transaction api c p f = Inr tx"
    and sign: "\<And>w t k. \<exists>raw. sign_transaction api w t k = Inr raw"
    and coll: "\<And>w raw n. \<exists>e. send_raw_transaction api w raw n = Inl e \<and> nonce_collision e"
    and run: "submit_spotdata_transaction_queue api self acct params R = (res, self', evs)"
  shows "res = Inr (False, None)
       \<and> broadcast_positions evs =
           map (\<lambda>j. (current_sync_node_index self + 1 + j) mod length (w3_instances self))
             [0..<nat R]
       \<and> broadcast_nodes evs = map ((!) (w3_instances self)) (broadcast_positions evs)
       \<and> failed_submissions self' = failed_submissions self + 1
       \<and> submissions_count self' = submissions_count self
       \<and> successful_submissions self' = successful_submissions self"
proof (cases rule: submit_queue_cases [of api self acct params R])
  case (early s1)
  let ?a = "address acct"
  let ?s1 = "self\<lparr>account_nonces := (account_nonces self)(?a := account_nonces self ?a + 1)\<rparr>"
  let ?s2 = "?s1\<lparr>current_sync_node_index :=
                 (current_sync_node_index self + 1) mod length (w3_instances self)\<rparr>"
  obtain tx where tx: "build_transaction api (cs ! current_sync_node_index self) params
      \<lparr>tx_from = ?a, tx_nonce = account_nonces self ?a, tx_value = 0,
       tx_gas = gas_limit self, tx_gasPrice = gas_price self, tx_chainId = cid\<rparr> = Inr tx"
    using build by blast
  obtain raw where raw: "sign_transaction api
      (w3_instances self ! current_sync_node_index self) tx (private_key acct) = Inr raw"
    using sign by blast
  have "snd (snd (submit_spotdata_transaction_queue api self acct params R)) =
        snd (snd (after_loop ?a (account_nonces self ?a) raw (retry_loop api raw R 0 ?s2)))"
    using idx cs cid tx raw
    by (simp add: submit_spotdata_transaction_queue_def submit_try_def get_next_nonce_def
          get_next_contract_def get_next_sync_node_def after_loop_def
          split: prod.splits loop_exit.splits)
  then have False
    using early(1)
    by (cases "retry_loop api raw R 0 ?s2") (auto simp: after_loop_def split: loop_exit.splits)
  then show ?thesis ..
next
  case (loop w3_read s2 raw c cid' tx)
  note node = get_next_sync_node_counters [OF loop(2)]
  have s2: "current_sync_node_index s2 =
              (current_sync_node_index self + 1) mod length (w3_instances self)"
    "w3_instances s2 = w3_instances self"
    "submissions_count s2 = submissions_count self"
    "successful_submissions s2 = successful_submissions self"
    "failed_submissions s2 = failed_submissions self"
    using node by (simp_all add: get_next_nonce_def)
  have pos: "0 < length (w3_instances self)" using idx by auto
  then have idx2: "current_sync_node_index s2 < length (w3_instances s2)"
    using s2 by simp
  obtain ex s3 bs where r: "retry_loop api raw R 0 s2 = (ex, s3, bs)"
    by (cases "retry_loop api raw R 0 s2")
  have all: "ex = Fell_through"
    "broadcast_positions bs =
       map (\<lambda>j. (current_sync_node_index s2 + j) mod length (w3_instances s2)) [0..<nat R]"
    using retry_loop_all_collisions [of api raw s2 R 0] coll idx2 r by simp_all
  have nodes: "broadcast_nodes bs = map ((!) (w3_instances s2)) (broadcast_positions bs)"
    using retry_loop_nodes [of api raw R 0 s2] r by simp
  have cnt: "submissions_count s3 = submissions_count s2"
    "successful_submissions s3 = successful_submissions s2"
    using retry_loop_counters [where api = api and raw = raw and R = R and k = 0 and s = s2]
      r all(1) by simp_all
  have fl: "failed_submissions s3 = failed_submissions s2"
    using retry_loop_failed [of api raw R 0 s2] r by simp
  have res: "res = Inr (False, None)" "self' = s3\<lparr>failed_submissions := failed_submissions s3 + 1\<rparr>"
    "evs = Reserved (address acct) (account_nonces self (address acct)) # Signed raw # bs"
    using loop(6) run r all(1) by (simp_all add: after_loop_def)
  have shift: "(\<lambda>j. ((current_sync_node_index self + 1) mod length (w3_instances self) + j)
                      mod length (w3_instances self)) =
               (\<lambda>j. (current_sync_node_index self + 1 + j) mod length (w3_instances self))"
    by (simp add: mod_add_left_eq)
  show ?thesis
    using res all(2) nodes cnt fl s2 shift by simp
qed

lemma demo_run_hyps:
  "current_sync_node_index demo_sender < length (w3_instances demo_sender)"
  "distinct (w3_instances demo_sender)"
  "contracts demo_sender ''DataSpotting'' =
     Some [Contract ''node0'', Contract ''node1'', Contract ''node2'']"
  "current_sync_node_index demo_sender
     < length [Contract ''node0'', Contract ''node1'', Contract ''node2'']"
  "chain_id demo_sender = Some 1"
  "(3::int) \<le> int (length (w3_instances demo_sender))"
  by (simp_all add: demo_defs)

lemma api_colliding_hyps:
  "\<exists>tx. build_transaction api_colliding c p f = Inr tx"
  "\<exists>raw. sign_transaction api_colliding w t k = Inr raw"
  "\<exists>e. send_raw_transaction api_colliding w raw n = Inl e \<and> nonce_collision e"
  by (simp_all add: demo_defs collision_msg)

text \<open>
  C1, as the code has it. A submission reserves exactly one nonce: the counter of the
  account ends one above its start, whether the submission succeeds or fails. Then either
  the submission fails before any signature and any broadcast (the selection of the
  contract or of the node, the build or the signing raised), or the transaction is signed
  exactly once, before the retry loop, and every attempt broadcasts the bytes of that one
  signature.
\<close>

theorem submit_reserves_once_signs_at_most_once:
  assumes "submit_spotdata_transaction api self acct R = (res, self', evs)"
  shows "account_nonces self' =
           (account_nonces self)(address acct := account_nonces self (address acct) + 1)
       \<and> length (filter is_reserved evs) = 1
       \<and> length (filter is_signed evs) \<le> 1
       \<and> ((res = Inr (False, None)
            \<and> evs = [Reserved (address acct) (account_nonces self (address acct))])
          \<or> (\<exists>raw bs. evs = Reserved (address acct) (account_nonces self (address acct))
                               # Signed raw # bs
                      \<and> list_all (broadcast_of raw) bs))"
  using submit_queue_reserves_once [of api self acct "spot_data_params self" R res self' evs]
    assms
  by (simp add: submit_spotdata_transaction_def)

theorem submit_reserves_once_signs_at_most_once_witness:
  "submit_spotdata_transaction api_colliding demo_sender demo_account 3 =
     (Inr (False, None),
      demo_sender\<lparr>current_sync_node_index := 1,
        account_nonces := (\<lambda>_. 0)(''0xA1'' := 1), failed_submissions := 1\<rparr>,
      [Reserved ''0xA1'' 0, Signed ''signed'',
       Broadcast 1 ''node1'' ''signed'' 0 (Inl ''same nonce already exists''),
       Broadcast 2 ''node2'' ''signed'' 1 (Inl ''same nonce already exists''),
       Broadcast 0 ''node0'' ''signed'' 2 (Inl ''same nonce already exists'')])
   \<and> length (filter is_reserved
        [Reserved ''0xA1'' 0, Signed ''signed'',
         Broadcast 1 ''node1'' ''signed'' 0 (Inl ''same nonce already exists''),
         Broadcast 2 ''node2'' ''signed'' 1 (Inl ''same nonce already exists''),
         Broadcast 0 ''node0'' ''signed'' 2 (Inl ''same nonce already exists'')]) = 1
   \<and> length (filter is_signed
        [Reserved ''0xA1'' 0, Signed ''signed'',
         Broadcast 1 ''node1'' ''signed'' 0 (Inl ''same nonce already exists''),
         Broadcast 2 ''node2'' ''signed'' 1 (Inl ''same nonce already exists''),
         Broadcast 0 ''node0'' ''signed'' 2 (Inl ''same nonce already exists'')]) \<le> 1"
  using submit_reserves_once_signs_at_most_once [OF ev_colliding] ev_colliding
  by simp

text \<open>
  The claim as written (every submission signs exactly once) fails where the build
  raises: the nonce is reserved, nothing is signed and nothing is broadcast.
\<close>

theorem unbuildable_submission_signs_nothing:
  "snd (snd (submit_spotdata_transaction api_unbuildable demo_sender demo_account 3)) =
     [Reserved ''0xA1'' 0]
   \<and> length (filter is_signed
        (snd (snd (submit_spotdata_transaction api_unbuildable demo_sender demo_account 3))))
      \<noteq> 1"
  by (simp add: ev_unb)

text \<open>
  C2. When every broadcast is answered with the nonce collision message, the build and
  the signature succeed, and \<open>0 \<le> max_retries \<le>\<close> the size of the pool, the submission
  makes exactly \<open>max_retries\<close> broadcasts, on the consecutive positions of the rotation
  after the one the read selection took, which are pairwise distinct, as are the nodes
  when the pool holds distinct nodes; then it records the failure: \<open>(False, None)\<close> is
  returned and \<open>failed_submissions\<close> is one higher.
\<close>

theorem collision_on_every_attempt:
  assumes "current_sync_node_index self < length (w3_instances self)"
    and "distinct (w3_instances self)"
    and "contracts self ''DataSpotting'' = Some cs"
    and "current_sync_node_index self < length cs"
    and "chain_id self = Some cid"
    and "\<And>c p f. \<exists>tx. build_transaction api c p f = Inr tx"
    and "\<And>w t k. \<exists>raw. sign_transaction api w t k = Inr raw"
    and "\<And>w raw n. \<exists>e. send_raw_transaction api w raw n = Inl e \<and> nonce_collision e"
    and "0 \<le> R" and "R \<le> int (length (w3_instances self))"
    and "submit_spotdata_transaction api self acct R = (res, self', evs)"
  shows "res = Inr (False, None)
       \<and> int (length (broadcast_positions evs)) = R
       \<and> broadcast_positions evs =
           map (\<lambda>j. (current_sync_node_index self + 1 + j) mod length (w3_instances self))
             [0..<nat R]
       \<and> distinct (broadcast_positions evs)
       \<and> broadcast_nodes evs = map ((!) (w3_instances self)) (broadcast_positions evs)
       \<and> distinct (broadcast_nodes evs)
       \<and> failed_submissions self' = failed_submissions self + 1
       \<and> submissions_count self' = submissions_count self
       \<and> successful_submissions self' = successful_submissions self"
proof -
  let ?N = "length (w3_instances self)"
  let ?f = "\<lambda>j. (current_sync_node_index self + 1 + j) mod ?N"
  have run: "submit_spotdata_transaction_queue api self acct (spot_data_params self) R =
               (res, self', evs)"
    using assms(11) by (simp add: submit_spotdata_transaction_def)
  note main = submit_colliding_run [OF assms(1) assms(3) assms(4) assms(5) assms(6)
      assms(7) assms(8) run]
  have pos: "broadcast_positions evs = map ?f [0..<nat R]" using main by simp
  have len: "int (length (broadcast_positions evs)) = R" using pos assms(9) by simp
  have dpos: "distinct (broadcast_positions evs)"
    unfolding pos using rotation_distinct [of "nat R" ?N "current_sync_node_index self + 1"]
      assms(10) by simp
  have "0 < ?N" using assms(1) by auto
  then have "\<forall>i \<in> set (broadcast_positions evs). i < ?N" unfolding pos by simp
  then have "inj_on ((!) (w3_instances self)) (set (broadcast_positions evs))"
    using assms(2) by (rule inj_on_nth [rotated])
  then have "distinct (map ((!) (w3_instances self)) (broadcast_positions evs))"
    using dpos by (simp add: distinct_map)
  then show ?thesis using main len dpos by simp
qed

theorem collision_on_every_attempt_witness:
  "submit_spotdata_transaction api_colliding demo_sender demo_account 3 =
     (Inr (False, None),
      demo_sender\<lparr>current_sync_node_index := 1,
        account_nonces := (\<lambda>_. 0)(''0xA1'' := 1), failed_submissions := 1\<rparr>,
      [Reserved ''0xA1'' 0, Signed ''signed'',
       Broadcast 1 ''node1'' ''signed'' 0 (Inl ''same nonce already exists''),
       Broadcast 2 ''node2'' ''signed'' 1 (Inl ''same nonce already exists''),
       Broadcast 0 ''node0'' ''signed'' 2 (Inl ''same nonce already exists'')])
   \<and> broadcast_positions
        [Reserved ''0xA1'' 0, Signed ''signed'',
         Broadcast 1 ''node1'' ''signed'' 0 (Inl ''same nonce already exists''),
         Broadcast 2 ''node2'' ''signed'' 1 (Inl ''same nonce already exists''),
         Broadcast 0 ''node0'' ''signed'' 2 (Inl ''same nonce already exists'')] = [1, 2, 0]
   \<and> broadcast_nodes
        [Reserved ''0xA1'' 0, Signed ''signed'',
         Broadcast 1 ''node1'' ''signed'' 0 (Inl ''same nonce already exists''),
         Broadcast 2 ''node2'' ''signed'' 1 (Inl ''same nonce already exists''),
         Broadcast 0 ''node0'' ''signed'' 2 (Inl ''same nonce already exists'')]
       = [''node1'', ''node2'', ''node0'']"
  using collision_on_every_attempt [OF demo_run_hyps(1-5) api_colliding_hyps _
      demo_run_hyps(6) ev_colliding] ev_colliding
  by simp

text \<open>
  C3. A broadcast that raises an error other than a nonce collision is the last event
  of the submission, whatever \<open>max_retries\<close> is: no further broadcast is made,
  \<open>(False, None)\<close> is returned and \<open>failed_submissions\<close> is one higher.
\<close>

theorem other_error_ends_submission:
  assumes "submit_spotdata_transaction api self acct R = (res, self', evs)"
    and "evs = pre @ Broadcast pos w raw n (Inl e) # post"
    and "\<not> nonce_collision e"
  shows "post = [] \<and> res = Inr (False, None)
       \<and> failed_submissions self' = failed_submissions self + 1
       \<and> submissions_count self' = submissions_count self
       \<and> successful_submissions self' = successful_submissions self"
  using submit_queue_stops [of api self acct "spot_data_params self" R res self' evs
      pre pos w raw n e post] assms
  by (simp add: submit_spotdata_transaction_def)

theorem other_error_ends_submission_witness:
  "submit_spotdata_transaction api_refusing demo_sender demo_account 3 =
     (Inr (False, None),
      demo_sender\<lparr>current_sync_node_index := 2,
        account_nonces := (\<lambda>_. 0)(''0xA1'' := 1), failed_submissions := 1\<rparr>,
      [Reserved ''0xA1'' 0, Signed ''signed'']
        @ Broadcast 1 ''node1'' ''signed'' 0 (Inl ''connection refused'') # [])
   \<and> \<not> nonce_collision ''connection refused''
   \<and> failed_submissions
        (demo_sender\<lparr>current_sync_node_index := 2,
           account_nonces := (\<lambda>_. 0)(''0xA1'' := 1), failed_submissions := 1\<rparr>)
      = failed_submissions demo_sender + 1"
  using other_error_ends_submission [of api_refusing demo_sender demo_account 3
      "Inr (False, None)" _ _ "[Reserved ''0xA1'' 0, Signed ''signed'']" 1 "''node1''"
      "''signed''" 0 "''connection refused''" "[]"] ev_refusing refused_msg
  by simp

text \<open>
  C7. A submission that fails: from fresh counters, the broadcast is refused, and the
  counters stand at \<open>submissions_count = 0\<close>, \<open>successful_submissions = 0\<close>,
  \<open>failed_submissions = 1\<close>. The count of submissions is bumped on the success path
  only, so it is not the sum of the other two.
\<close>

theorem failed_submission_not_counted_as_attempt:
  "(case submit_spotdata_transaction api_refusing demo_sender demo_account 3 of
      (res, self', evs) \<Rightarrow>
        (res, submissions_count self', successful_submissions self',
         failed_submissions self')) = (Inr (False, None), 0, 0, 1)
   \<and> (case submit_spotdata_transaction api_refusing demo_sender demo_account 3 of
      (res, self', evs) \<Rightarrow>
        submissions_count self' \<noteq> successful_submissions self' + failed_submissions self')"
  unfolding ev_refusing by (simp add: demo_defs)

text \<open>
  C9. In both scripts \<^verbatim>\<open>submit_spotdata_transaction\<close> returns a pair for every
  environment, state, account and retry budget: no exception leaves it. The pair is
  \<open>(True, Some hash)\<close> with the success counters bumped, or \<open>(False, None)\<close> with
  \<open>failed_submissions\<close> bumped.
\<close>

theorem submit_returns_outcome:
  "(\<exists>ok h self' evs.
     submit_spotdata_transaction api self acct R = (Inr (ok, h), self', evs)
     \<and> ((ok \<and> (\<exists>t. h = Some t)
          \<and> submissions_count self' = submissions_count self + 1
          \<and> successful_submissions self' = successful_submissions self + 1
          \<and> failed_submissions self' = failed_submissions self)
        \<or> (ok = False \<and> h = None
          \<and> submissions_count self' = submissions_count self
          \<and> successful_submissions self' = successful_submissions self
          \<and> failed_submissions self' = failed_submissions self + 1)))
   \<and> (\<exists>ok h self' evs.
     submit_spotdata_transaction_queue api self acct params R = (Inr (ok, h), self', evs)
     \<and> ((ok \<and> (\<exists>t. h = Some t)
          \<and> submissions_count self' = submissions_count self + 1
          \<and> successful_submissions self' = successful_submissions self + 1
          \<and> failed_submissions self' = failed_submissions self)
        \<or> (ok = False \<and> h = None
          \<and> submissions_count self' = submissions_count self
          \<and> successful_submissions self' = successful_submissions self
          \<and> failed_submissions self' = failed_submissions self + 1)))"
  unfolding submit_spotdata_transaction_def
  using submit_queue_returns [of api self acct "spot_data_params self" R]
    submit_queue_returns [of api self acct params R]
  by blast

section \<open>The claims on the endpoint pool\<close>

lemma select_n_rotation:
  assumes "current_sync_node_index s < length (w3_instances s)"
  shows "fst (select_n m s) =
           map (\<lambda>j. w3_instances s ! ((current_sync_node_index s + j) mod length (w3_instances s)))
             [0..<m]
       \<and> current_sync_node_index (snd (select_n m s)) =
           (current_sync_node_index s + m) mod length (w3_instances s)
       \<and> w3_instances (snd (select_n m s)) = w3_instances s"
  using assms
proof (induction m arbitrary: s)
  case 0
  then show ?case by simp
next
  case (Suc m)
  let ?N = "length (w3_instances s)"
  let ?c = "current_sync_node_index s"
  let ?s1 = "s\<lparr>current_sync_node_index := (?c + 1) mod ?N\<rparr>"
  have node: "get_next_sync_node s = Inr (w3_instances s ! ?c, ?s1)"
    using Suc.prems by (simp add: get_next_sync_node_def)
  have "0 < ?N" using Suc.prems by auto
  then have wf1: "current_sync_node_index ?s1 < length (w3_instances ?s1)" by simp
  note ih = Suc.IH [OF wf1]
  have sel: "select_n (Suc m) s =
               (w3_instances s ! ?c # fst (select_n m ?s1), snd (select_n m ?s1))"
    using node by (simp add: case_prod_unfold)
  have shift: "((?c + 1) mod ?N + j) mod ?N = (?c + Suc j) mod ?N" for j
    by (simp add: mod_add_left_eq)
  have "map (\<lambda>j. w3_instances s ! ((?c + j) mod ?N)) [0..<Suc m] =
        w3_instances s ! ?c # map (\<lambda>j. w3_instances s ! ((?c + Suc j) mod ?N)) [0..<m]"
    using Suc.prems by (simp add: map_upt_Suc del: upt_Suc)
  then show ?case
    using ih shift unfolding sel by (simp add: mod_add_left_eq del: upt_Suc)
qed

lemma rotate_as_map:
  assumes "c < length xs"
  shows "map (\<lambda>j. xs ! ((c + j) mod length xs)) [0..<length xs] = rotate c xs"
  by (rule nth_equalityI) (simp_all add: nth_rotate add.commute)

text \<open>
  C6, as the code has it. The pool has one cursor, moved by every selection, for a read
  as for a write: a selection returns the node under the cursor and moves the cursor on
  by one modulo the size of the pool. Starting from any cursor within the pool, \<open>N\<close>
  selections in sequence on a pool of \<open>N\<close> nodes return the pool rotated to the cursor,
  that is every node once, in the order of the pool, and the cursor is back where it was.
\<close>

theorem pool_round_robin_single_cursor:
  assumes "current_sync_node_index self < length (w3_instances self)"
  shows "get_next_sync_node self =
           Inr (w3_instances self ! current_sync_node_index self,
                self\<lparr>current_sync_node_index :=
                       (current_sync_node_index self + 1) mod length (w3_instances self)\<rparr>)
       \<and> fst (select_n (length (w3_instances self)) self) =
           rotate (current_sync_node_index self) (w3_instances self)
       \<and> set (fst (select_n (length (w3_instances self)) self)) = set (w3_instances self)
       \<and> length (fst (select_n (length (w3_instances self)) self)) = length (w3_instances self)
       \<and> distinct (fst (select_n (length (w3_instances self)) self)) =
           distinct (w3_instances self)
       \<and> current_sync_node_index (snd (select_n (length (w3_instances self)) self)) =
           current_sync_node_index self"
proof -
  have "fst (select_n (length (w3_instances self)) self) =
          rotate (current_sync_node_index self) (w3_instances self)"
    using select_n_rotation [OF assms, of "length (w3_instances self)"]
      rotate_as_map [OF assms] by simp
  then show ?thesis
    using assms select_n_rotation [OF assms, of "length (w3_instances self)"]
    by (simp add: get_next_sync_node_def)
qed

theorem pool_round_robin_single_cursor_witness:
  "current_sync_node_index demo_sender < length (w3_instances demo_sender)
   \<and> get_next_sync_node demo_sender =
       Inr (''node0'', demo_sender\<lparr>current_sync_node_index := 1\<rparr>)
   \<and> fst (select_n 3 demo_sender) = [''node0'', ''node1'', ''node2'']
   \<and> current_sync_node_index (snd (select_n 3 demo_sender)) = 0"
proof -
  have h: "current_sync_node_index demo_sender < length (w3_instances demo_sender)"
    by (simp add: demo_defs)
  have len: "length (w3_instances demo_sender) = 3"
    and c0: "current_sync_node_index demo_sender = 0"
    and r: "rotate (current_sync_node_index demo_sender) (w3_instances demo_sender) =
              [''node0'', ''node1'', ''node2'']"
    and g: "(current_sync_node_index demo_sender + 1) mod length (w3_instances demo_sender) = 1"
      "w3_instances demo_sender ! current_sync_node_index demo_sender = ''node0''"
    by (simp_all add: demo_defs)
  note t = pool_round_robin_single_cursor [OF h]
  from t have "get_next_sync_node demo_sender =
      Inr (w3_instances demo_sender ! current_sync_node_index demo_sender,
           demo_sender\<lparr>current_sync_node_index :=
             (current_sync_node_index demo_sender + 1) mod length (w3_instances demo_sender)\<rparr>)"
    by (rule conjunct1)
  then have a: "get_next_sync_node demo_sender =
      Inr (''node0'', demo_sender\<lparr>current_sync_node_index := 1\<rparr>)"
    unfolding g .
  from t have "fst (select_n (length (w3_instances demo_sender)) demo_sender) =
      rotate (current_sync_node_index demo_sender) (w3_instances demo_sender)"
    by (rule conjunct1 [OF conjunct2])
  then have b: "fst (select_n 3 demo_sender) = [''node0'', ''node1'', ''node2'']"
    unfolding len r .
  from t have "current_sync_node_index
        (snd (select_n (length (w3_instances demo_sender)) demo_sender)) =
      current_sync_node_index demo_sender"
    by blast
  then have c: "current_sync_node_index (snd (select_n 3 demo_sender)) = 0"
    unfolding len c0 .
  from h a b c show ?thesis by (intro conjI)
qed

text \<open>
  The claim as written (read selections do not advance the write rotation) fails: on the
  pool of three nodes with the cursor at 0, the next selection is \<open>node0\<close>, but after one
  read selection it is \<open>node1\<close>; and a submission, which selects a node for reading
  before the loop, sends its first broadcast to position 1.
\<close>

theorem read_selection_advances_write_rotation:
  "fst (select_n 1 demo_sender) = [''node0'']
   \<and> fst (select_n 1 (snd (select_n 1 demo_sender))) = [''node1'']
   \<and> fst (select_n 1 (snd (select_n 1 demo_sender))) \<noteq> fst (select_n 1 demo_sender)
   \<and> broadcast_positions
        (snd (snd (submit_spotdata_transaction api_accepting demo_sender demo_account 3)))
       = [1]"
proof -
  have one: "select_n 1 demo_sender = ([''node0''], demo_sender\<lparr>current_sync_node_index := 1\<rparr>)"
    by (simp add: get_next_sync_node_def demo_defs)
  have two: "select_n 1 (demo_sender\<lparr>current_sync_node_index := 1\<rparr>) =
               ([''node1''], demo_sender\<lparr>current_sync_node_index := 2\<rparr>)"
    by (simp add: get_next_sync_node_def demo_defs)
  show ?thesis unfolding ev_acc one snd_conv fst_conv two by simp
qed

section \<open>The claim on reconciliation\<close>

lemma realign_one_fields:
  "account_nonces (realign_one s a V) = (account_nonces s)(a := V)"
  "current_sync_node_index (realign_one s a V) = current_sync_node_index s"
  "w3_instances (realign_one s a V) = w3_instances s"
  by (simp_all add: realign_one_def fun_eq_iff)

lemma realign_loop_aligns:
  assumes reads: "\<And>w. get_transaction_count api w a = Inr V"
  shows "current_sync_node_index s < length (w3_instances s) \<Longrightarrow>
         account_nonces s a = V \<or> a \<in> address ` set accts \<Longrightarrow>
         account_nonces (realign_loop api accts s) a = V"
proof (induction accts arbitrary: s)
  case Nil
  then show ?case by simp
next
  case (Cons x rest)
  let ?N = "length (w3_instances s)"
  let ?c = "current_sync_node_index s"
  let ?w = "w3_instances s ! ?c"
  let ?s1 = "s\<lparr>current_sync_node_index := (?c + 1) mod ?N\<rparr>"
  have node: "get_next_sync_node s = Inr (?w, ?s1)"
    using Cons.prems(1) by (simp add: get_next_sync_node_def)
  have "0 < ?N" using Cons.prems(1) by auto
  then have wf1: "current_sync_node_index ?s1 < length (w3_instances ?s1)" by simp
  show ?case
  proof (cases "get_transaction_count api ?w (address x)")
    case (Inl e)
    then have ne: "address x \<noteq> a" using reads [of ?w] by auto
    have "account_nonces ?s1 a = V \<or> a \<in> address ` set rest"
      using Cons.prems(2) ne by auto
    then show ?thesis
      using Cons.IH [OF wf1] node Inl by simp
  next
    case (Inr b)
    let ?s2 = "realign_one ?s1 (address x) b"
    have wf2: "current_sync_node_index ?s2 < length (w3_instances ?s2)"
      using wf1 by (simp add: realign_one_fields)
    have "account_nonces ?s2 a = V \<or> a \<in> address ` set rest"
    proof (cases "address x = a")
      case True
      then have "b = V" using reads [of ?w] Inr by simp
      then show ?thesis using True by (simp add: realign_one_fields)
    next
      case False
      then show ?thesis using Cons.prems(2) by (auto simp: realign_one_fields)
    qed
    then show ?thesis
      using Cons.IH [OF wf2] node Inr by simp
  qed
qed

text \<open>
  C5. Once the counter of an address has been realigned with the value \<open>V\<close> read from
  the ledger, whether it differed from the local counter or not, the next
  \<^verbatim>\<open>get_next_nonce\<close> for the address returns \<open>V\<close>. For \<^verbatim>\<open>realign_all_nonces\<close> as a whole:
  with a cursor inside the pool and the nodes answering \<open>V\<close> for the address of an account
  of \<^verbatim>\<open>self.accounts\<close>, the next reservation for that address returns \<open>V\<close>.
\<close>

theorem realign_then_reserve:
  assumes "current_sync_node_index self < length (w3_instances self)"
    and "acct \<in> set (accounts self)"
    and "\<And>w. get_transaction_count api w (address acct) = Inr V"
  shows "fst (get_next_nonce (realign_one self0 a V0) a) = V0
       \<and> fst (get_next_nonce (realign_all_nonces api self) (address acct)) = V"
proof -
  have "account_nonces (realign_loop api (accounts self) self) (address acct) = V"
    using realign_loop_aligns [of api "address acct" V self "accounts self"] assms by blast
  then show ?thesis
    by (simp add: get_next_nonce_def realign_all_nonces_def realign_one_fields Let_def)
qed

theorem realign_then_reserve_witness:
  "account_nonces drifted_sender ''0xA1'' = 110
   \<and> fst (get_next_nonce (realign_one drifted_sender ''0xA1'' 108) ''0xA1'') = 108
   \<and> fst (get_next_nonce (realign_all_nonces api_ledger_108 drifted_sender) ''0xA1'') = 108"
proof -
  have h1: "current_sync_node_index drifted_sender < length (w3_instances drifted_sender)"
    and h2: "demo_account \<in> set (accounts drifted_sender)"
    and h3: "\<And>w. get_transaction_count api_ledger_108 w (address demo_account) = Inr 108"
    and a: "address demo_account = ''0xA1''"
    and d: "account_nonces drifted_sender ''0xA1'' = 110"
    by (simp_all add: drifted_sender_def api_ledger_108_def demo_defs)
  show ?thesis
    using realign_then_reserve [OF h1 h2 h3, of drifted_sender "''0xA1''" 108] d
    unfolding a by simp
qed

section \<open>The claim on the work queue\<close>

lemma queue_step_conserved:
  assumes "0 < m" "queue_conserved m r"
  shows "queue_conserved m (queue_step r op)"
proof (cases op)
  case (Enqueue p)
  then show ?thesis
    using assms
    by (auto simp: queue_conserved_def add_transaction_def put_def)
next
  case Dequeue
  then show ?thesis
    using assms
    by (cases "queue_items (run_queue r)") (auto simp: queue_conserved_def get_def)
qed

lemma queue_run_conserved:
  assumes "0 < m"
  shows "queue_conserved m r \<Longrightarrow> queue_conserved m (foldl queue_step r ops)"
proof (induction ops arbitrary: r)
  case Nil
  then show ?case by simp
next
  case (Cons op ops)
  then show ?case using queue_step_conserved [OF assms] by simp
qed

text \<open>
  C8, as the code has it. On the bounded queue, \<^verbatim>\<open>add_transaction\<close> waits while the
  queue is at its bound (the call does not return and the queue is unchanged) and
  otherwise appends the item. In every interleaving of \<^verbatim>\<open>add_transaction\<close> calls and
  \<^verbatim>\<open>get\<close> calls, the items accepted are exactly the items handed out, in order, followed
  by the items still in the queue, and the queue never holds more than its bound.
\<close>

theorem bounded_queue_waits_and_conserves:
  assumes "0 < maxsize q" and "int (length (queue_items q)) \<le> maxsize q"
  shows "add_transaction q fhs uds ics ex =
           (if int (length (queue_items q)) = maxsize q then Put_waits q
            else Put_done (q\<lparr>queue_items := queue_items q @
                   [\<lparr>file_hashs = fhs, url_domains = uds, item_counts = ics, extra = ex\<rparr>]\<rparr>))
       \<and> accepted (foldl queue_step (queue_run_init q) ops) =
           dequeued (foldl queue_step (queue_run_init q) ops)
             @ queue_items (run_queue (foldl queue_step (queue_run_init q) ops))
       \<and> int (length (queue_items (run_queue (foldl queue_step (queue_run_init q) ops))))
           \<le> maxsize q"
proof -
  have "queue_conserved (maxsize q) (queue_run_init q)"
    using assms by (simp add: queue_conserved_def queue_run_init_def)
  then have "queue_conserved (maxsize q) (foldl queue_step (queue_run_init q) ops)"
    using queue_run_conserved [OF assms(1)] by blast
  then show ?thesis
    using assms by (auto simp: queue_conserved_def add_transaction_def put_def)
qed

theorem bounded_queue_waits_and_conserves_witness:
  "0 < maxsize small_queue
   \<and> add_transaction small_queue [''Qm1''] [''''] [0] '''' =
       Put_done (small_queue\<lparr>queue_items := [demo_params]\<rparr>)
   \<and> accepted (foldl queue_step (queue_run_init small_queue)
        [Enqueue demo_params, Enqueue demo_params, Dequeue, Enqueue demo_params]) =
       [demo_params, demo_params]
   \<and> dequeued (foldl queue_step (queue_run_init small_queue)
        [Enqueue demo_params, Enqueue demo_params, Dequeue, Enqueue demo_params]) =
       [demo_params]
   \<and> queue_items (run_queue (foldl queue_step (queue_run_init small_queue)
        [Enqueue demo_params, Enqueue demo_params, Dequeue, Enqueue demo_params])) =
       [demo_params]"
proof -
  have h1: "0 < maxsize small_queue"
    and h2: "int (length (queue_items small_queue)) \<le> maxsize small_queue"
    by (simp_all add: small_queue_def)
  have run: "foldl queue_step (queue_run_init small_queue)
        [Enqueue demo_params, Enqueue demo_params, Dequeue, Enqueue demo_params] =
      \<lparr>run_queue = \<lparr>maxsize = 1, queue_items = [demo_params]\<rparr>,
       accepted = [demo_params, demo_params], dequeued = [demo_params]\<rparr>"
    by (simp add: queue_run_init_def small_queue_def add_transaction_def put_def get_def
        demo_params_def)
  show ?thesis
    using bounded_queue_waits_and_conserves [OF h1 h2, of "[''Qm1'']" "['''']" "[0]" "''''"
        "[Enqueue demo_params, Enqueue demo_params, Dequeue, Enqueue demo_params]"] h1
    unfolding run by (simp add: small_queue_def demo_params_def)
qed

text \<open>
  The claim as written (enqueue fails at capacity) does not hold for the script: on the
  queue holding 1000000 items, \<^verbatim>\<open>add_transaction\<close> waits; it does not raise
  \<^verbatim>\<open>queue.Full\<close>, which only a non-blocking \<^verbatim>\<open>put\<close> would do.
\<close>

theorem add_transaction_waits_on_full_queue:
  "int (length (queue_items full_queue)) = maxsize full_queue
   \<and> add_transaction full_queue [''Qm1''] [''''] [0] '''' = Put_waits full_queue
   \<and> add_transaction full_queue [''Qm1''] [''''] [0] '''' \<noteq> Put_raises_Full
   \<and> put full_queue demo_params False = Put_raises_Full"
  by (simp add: full_queue_def add_transaction_def put_def)

end
